theory Spec2Isabelle
  imports Complex_Main "HOL-Library.Log_Nat"
begin

section \<open>Data model (src/App.tsx, the types module)\<close>

text \<open>
  JavaScript numbers are IEEE 754 doubles. They are modelled as reals; \<open>NaN\<close> and the
  infinities are outside the model (for a \<open>NaN\<close> start time the comparator handed to
  \<open>Array.prototype.sort\<close> is inconsistent and the resulting order is
  implementation-defined). Comparisons, \<open>Math.max\<close> and \<open>Math.min\<close> are exact on
  doubles. A sum is rounded to the nearest double; the section on double arithmetic
  defines the rounding \<open>fl\<close>, and the merge test and the sampling loop
  \<open>sampleLoopDouble\<close> apply it.

  The subtitle text, which the code trims and lower-cases, is a JavaScript string: a
  list of UTF-16 code units (\<open>jsstring\<close>). Strings that the code only stores and passes
  on (identifiers, image data, status messages) are plain strings.
\<close>

type_synonym jsstring = "nat list"

text \<open>The JavaScript string of an ASCII literal.\<close>

definition str :: "string \<Rightarrow> jsstring" where
  "str s = map of_char s"

datatype OCRLanguage =
  English | Japanese | Korean | ChineseSimplified | ChineseTraditional | Thai

record SubtitleArea =
  area_x :: real
  area_y :: real
  area_width :: real
  area_height :: real

text \<open>
  The fields \<open>id\<close> and \<open>text\<close> of \<open>SubtitleEntry\<close> are named \<open>entry_id\<close> and
  \<open>entry_text\<close> here.
\<close>

record SubtitleEntry =
  entry_id :: string
  startTime :: real
  endTime :: real
  entry_text :: jsstring

record OCRProcessState =
  isProcessing :: bool
  progress :: real
  currentStep :: string

record VideoMetadata =
  md_duration :: real
  md_width :: real
  md_height :: real
  md_aspectRatio :: real

record TimeRange =
  range_start :: real
  range_end :: real

text \<open>A sampled frame, \<open>{ data: string; timestamp: number }\<close>.\<close>

record Frame =
  data :: string
  timestamp :: real


section \<open>Double arithmetic\<close>

text \<open>
  \<open>expo x\<close> is the binary exponent of a non-zero \<open>x\<close>, the \<open>e\<close> with
  \<open>2^e \<le> |x| < 2^(e+1)\<close> (lemma \<open>expo_bounds\<close>), computed from the number of bits of
  the integer part of \<open>|x|\<close>, or of \<open>1 / |x|\<close> when \<open>|x| < 1\<close>. Doubles have 53
  significant bits, so the spacing of the doubles around \<open>x\<close> is \<open>2^(e - 52)\<close>, and
  \<open>2^(-1074)\<close> in the subnormal range. \<open>fl x\<close> is the multiple of that spacing nearest
  to \<open>x\<close>, the one with the even multiplier when two are equally near: the IEEE 754
  rounding to nearest, ties to even, that the engine applies to every arithmetic result
  and to every decimal literal. Results beyond the largest double (which the engine
  turns into an infinity) are outside the model.
\<close>

definition expo :: "real \<Rightarrow> int" where
  "expo x = (if 1 \<le> \<bar>x\<bar> then bitlen \<lfloor>\<bar>x\<bar>\<rfloor> - 1 else - bitlen (\<lceil>1 / \<bar>x\<bar>\<rceil> - 1))"

definition ulp :: "real \<Rightarrow> real" where
  "ulp x = 2 powi (max (expo x - 52) (- 1074))"

definition roundTiesToEven :: "real \<Rightarrow> int" where
  "roundTiesToEven y =
     (if y - of_int \<lfloor>y\<rfloor> < 1 / 2 then \<lfloor>y\<rfloor>
      else if 1 / 2 < y - of_int \<lfloor>y\<rfloor> then \<lfloor>y\<rfloor> + 1
      else if even \<lfloor>y\<rfloor> then \<lfloor>y\<rfloor>
      else \<lfloor>y\<rfloor> + 1)"

definition fl :: "real \<Rightarrow> real" where
  "fl x = of_int (roundTiesToEven (x / ulp x)) * ulp x"


section \<open>String helpers: \<open>trim\<close> and \<open>toLowerCase\<close>\<close>

text \<open>
  \<open>String.prototype.trim\<close> removes white space and line terminators from both ends.
  These are the code units TAB, LF, VT, FF, CR, SPACE, NO-BREAK SPACE, U+1680,
  U+2000 to U+200A, U+2028, U+2029, U+202F, U+205F, U+3000 and U+FEFF.
\<close>

definition isWhiteSpace :: "nat \<Rightarrow> bool" where
  "isWhiteSpace c =
     (c \<in> {0x9, 0xA, 0xB, 0xC, 0xD, 0x20, 0xA0, 0x1680, 0x2028, 0x2029, 0x202F, 0x205F,
            0x3000, 0xFEFF}
      \<or> (0x2000 \<le> c \<and> c \<le> 0x200A))"

definition trim :: "jsstring \<Rightarrow> jsstring" where
  "trim s = rev (dropWhile isWhiteSpace (rev (dropWhile isWhiteSpace s)))"

text \<open>
  \<open>String.prototype.toLowerCase\<close> applies the Unicode case mapping built into the
  engine; its tables are not part of the repository. The model takes the mapping as a
  parameter of type \<open>CaseMap\<close>: any function on strings that, as the built-in does, maps
  the empty string and no other to the empty string, and lowers an ASCII string by
  mapping \<open>A\<close>..\<open>Z\<close> to \<open>a\<close>..\<open>z\<close>. \<open>asciiCaseMap\<close> is the mapping that changes nothing
  else.
\<close>

definition asciiLower :: "nat \<Rightarrow> nat" where
  "asciiLower c = (if 0x41 \<le> c \<and> c \<le> 0x5A then c + 0x20 else c)"

definition isCaseMap :: "(jsstring \<Rightarrow> jsstring) \<Rightarrow> bool" where
  "isCaseMap f \<longleftrightarrow>
     (\<forall>s. (f s = []) = (s = []))
     \<and> (\<forall>s. list_all (\<lambda>c. c < 0x80) s \<longrightarrow> f s = map asciiLower s)"

typedef CaseMap = "{f. isCaseMap f}"
proof
  show "map asciiLower \<in> {f. isCaseMap f}"
    by (simp add: isCaseMap_def)
qed

setup_lifting type_definition_CaseMap

lift_definition toLowerCase :: "CaseMap \<Rightarrow> jsstring \<Rightarrow> jsstring" is "\<lambda>f. f" .

lift_definition asciiCaseMap :: CaseMap is "map asciiLower"
  by (simp add: isCaseMap_def)


section \<open>Timeline reconciliation (src/App.tsx, \<open>startOCR\<close>, lines 131-141)\<close>

text \<open>
  The body of \<open>sorted.forEach(sub => ...)\<close>. \<open>finalSubs\<close> is the array built so far;
  \<open>last\<close> is its final element, \<open>undefined\<close> (falsy) when the array is empty.
  The merge branch assigns \<open>last.endTime\<close> in place, the second branch pushes \<open>sub\<close>,
  and a candidate that takes neither branch is skipped. In \<open>last.endTime + 0.3\<close> the
  literal is the double \<open>fl 0.3\<close> and the sum is rounded.
\<close>

definition reconcileStep ::
  "CaseMap \<Rightarrow> SubtitleEntry list \<Rightarrow> SubtitleEntry \<Rightarrow> SubtitleEntry list" where
  "reconcileStep lc finalSubs sub =
     (if finalSubs \<noteq> []
         \<and> toLowerCase lc (trim (entry_text sub))
             = toLowerCase lc (trim (entry_text (last finalSubs)))
         \<and> startTime sub \<le> fl (endTime (last finalSubs) + fl 0.3)
      then butlast finalSubs
             @ [(last finalSubs)\<lparr>endTime := max (endTime (last finalSubs)) (endTime sub)\<rparr>]
      else if length (trim (entry_text sub)) > 0
      then finalSubs @ [sub]
      else finalSubs)"

text \<open>
  \<open>allSubs.sort((a, b) => a.startTime - b.startTime)\<close> is a stable sort by start time
  (the rounded difference of two doubles has the sign of the exact one, and \<open>sort_key\<close>
  is a stable insertion sort), followed by the \<open>forEach\<close> over the sorted array starting
  from the empty \<open>finalSubs\<close>.
\<close>

definition reconcile :: "CaseMap \<Rightarrow> SubtitleEntry list \<Rightarrow> SubtitleEntry list" where
  "reconcile lc allSubs = foldl (reconcileStep lc) [] (sort_key startTime allSubs)"

text \<open>
  Two predicates used to state the properties of the merge pass: \<open>mergeable lc l s\<close> is
  the merge condition of line 136 for a candidate \<open>s\<close> against the last accepted
  entry \<open>l\<close>; a list is \<open>settled\<close> when every entry has non-empty trimmed text and no
  entry satisfies the merge condition against its predecessor.
\<close>

definition mergeable :: "CaseMap \<Rightarrow> SubtitleEntry \<Rightarrow> SubtitleEntry \<Rightarrow> bool" where
  "mergeable lc l s \<longleftrightarrow>
     toLowerCase lc (trim (entry_text s)) = toLowerCase lc (trim (entry_text l))
     \<and> startTime s \<le> fl (endTime l + fl 0.3)"

definition settled :: "CaseMap \<Rightarrow> SubtitleEntry list \<Rightarrow> bool" where
  "settled lc ys \<longleftrightarrow>
     list_all (\<lambda>e. trim (entry_text e) \<noteq> []) ys
     \<and> successively (\<lambda>a b. \<not> mergeable lc a b) ys"


section \<open>Frame capture (src/App.tsx, \<open>captureFrame\<close>, lines 54-83)\<close>

text \<open>
  The video element: its playback position, its duration, its native size, whether it is
  paused, and \<open>pixels\<close>, the JPEG data URL that \<open>drawImage\<close> followed by \<open>toDataURL\<close>
  yields at a playback position for a crop rectangle \<open>(cropX, cropY, cropW, cropH)\<close>.
  Waiting for the \<open>seeked\<close> event is not modelled: the capture happens at the position
  that was assigned.
\<close>

record Video =
  currentTime :: real
  duration :: real
  videoWidth :: real
  videoHeight :: real
  paused :: bool
  pixels :: "real \<Rightarrow> real \<times> real \<times> real \<times> real \<Rightarrow> string"

definition cropRect :: "SubtitleArea \<Rightarrow> Video \<Rightarrow> real \<times> real \<times> real \<times> real" where
  "cropRect area video =
     (area_x area / 100 * videoWidth video,
      area_y area / 100 * videoHeight video,
      area_width area / 100 * videoWidth video,
      area_height area / 100 * videoHeight video)"

text \<open>
  \<open>captureFrame\<close> resolves to the empty string when there is no video element or when
  \<open>canvas.getContext('2d')\<close> gives no context (\<open>ctx\<close> false); in both cases the
  video is not touched. Otherwise it assigns \<open>Math.min(time, video.duration)\<close> to
  \<open>video.currentTime\<close> and resolves to the image drawn there.
\<close>

definition captureFrame ::
  "SubtitleArea \<Rightarrow> bool \<Rightarrow> Video option \<Rightarrow> real \<Rightarrow> string \<times> Video option" where
  "captureFrame area ctx videoRef time =
     (case videoRef of
        None \<Rightarrow> ([], None)
      | Some video \<Rightarrow>
          if \<not> ctx then ([], Some video)
          else (pixels video (min time (duration video)) (cropRect area video),
                Some (video\<lparr>currentTime := min time (duration video)\<rparr>)))"


section \<open>The recognition service client (src/services/geminiService.ts)\<close>

text \<open>
  What the remote call \<open>generateContent\<close> can come back with. The promise is rejected
  (\<open>Rejected\<close>), or it resolves to a response whose \<open>text\<close> is
  \<^item> \<open>NoText\<close>: \<open>undefined\<close> or the empty string, so that \<open>response.text || '[]'\<close> is \<open>'[]'\<close>;
  \<^item> \<open>NotJSON\<close>: a string on which \<open>JSON.parse\<close> throws a \<open>SyntaxError\<close>;
  \<^item> \<open>NotArray\<close>: JSON for a value that has no \<open>map\<close> method (an object, a string, a
    number, a boolean, \<open>null\<close>), so that \<open>results.map\<close> throws a \<open>TypeError\<close>;
  \<^item> \<open>JSONArray items\<close>: JSON for an array whose items carry a string \<open>text\<close> and finite
    numbers \<open>startTime\<close> and \<open>endTime\<close>, on which \<open>parseFloat\<close> is the identity.

  Arrays with other items (a missing field, a non-numeric time) give entries with
  \<open>undefined\<close> text or \<open>NaN\<close> times and are outside the model.
\<close>

record RawItem =
  item_text :: jsstring
  item_startTime :: real
  item_endTime :: real

datatype ResponseText = NoText | NotJSON | NotArray | JSONArray "RawItem list"

datatype ServiceReply = Rejected | Responded ResponseText

datatype Error = ApiKeyMissing | ServiceError | SyntaxError | TypeError

text \<open>
  The environment of a run: \<open>process.env.API_KEY\<close>; the remote call, as a function of the
  batch and the language (the prompt is built from them); the identifier
  \<open>sub-<Date.now()>-<idx>-<random>\<close> given to item \<open>idx\<close> of a batch's response;
  whether a 2d canvas context can be obtained; and the engine's case mapping.
\<close>

record Env =
  API_KEY :: "string option"
  generateContent :: "Frame list \<Rightarrow> OCRLanguage \<Rightarrow> ServiceReply"
  newId :: "Frame list \<Rightarrow> nat \<Rightarrow> string"
  context2d :: bool
  caseMap :: CaseMap

text \<open>\<open>!process.env.API_KEY\<close>: the key is undefined or the empty string.\<close>

definition apiKeyMissing :: "Env \<Rightarrow> bool" where
  "apiKeyMissing env = (case API_KEY env of None \<Rightarrow> True | Some k \<Rightarrow> k = [])"

text \<open>
  \<open>GeminiOCRService.processFrames\<close>: \<open>Inl\<close> is the error thrown (the \<open>catch\<close> block logs
  and rethrows), \<open>Inr\<close> the entries returned.
\<close>

definition processFrames :: "Env \<Rightarrow> Frame list \<Rightarrow> OCRLanguage \<Rightarrow> Error + SubtitleEntry list" where
  "processFrames env frames lang =
     (if apiKeyMissing env then Inl ApiKeyMissing
      else case generateContent env frames lang of
             Rejected \<Rightarrow> Inl ServiceError
           | Responded NoText \<Rightarrow> Inr []
           | Responded NotJSON \<Rightarrow> Inl SyntaxError
           | Responded NotArray \<Rightarrow> Inl TypeError
           | Responded (JSONArray results) \<Rightarrow>
               Inr (map (\<lambda>(idx, r).
                          \<lparr>entry_id = newId env frames idx,
                           startTime = item_startTime r,
                           endTime = item_endTime r,
                           entry_text = item_text r\<rparr>)
                        (enumerate 0 results)))"


section \<open>The pipeline (src/App.tsx, \<open>startOCR\<close>, lines 85-151)\<close>

definition step :: real where
  "step = 0.5"

definition batchSize :: nat where
  "batchSize = 10"

text \<open>
  The sampling loop of lines 102-112, \<open>while (current <= timeRange.end)\<close>: capture at
  \<open>current\<close>, push the frame labelled with \<open>current\<close>, advance by \<open>step\<close>.
  The loop's progress updates only touch the process state, which both exits of
  \<open>startOCR\<close> overwrite; they are left out, here and in the dispatch loop.
  Here the sums are exact: every step brings \<open>current\<close> closer to the bound by \<open>step\<close>,
  so the loop ends for every window.
\<close>

function sampleLoop ::
  "SubtitleArea \<Rightarrow> bool \<Rightarrow> real \<Rightarrow> real \<Rightarrow> Video option \<Rightarrow> Frame list
     \<Rightarrow> Frame list \<times> Video option" where
  "sampleLoop ar ctx current rangeEnd vref framesToProcess =
     (if current \<le> rangeEnd
      then sampleLoop ar ctx (current + step) rangeEnd
             (snd (captureFrame ar ctx vref current))
             (framesToProcess
                @ [\<lparr>data = fst (captureFrame ar ctx vref current), timestamp = current\<rparr>])
      else (framesToProcess, vref))"
  by pat_completeness auto
termination
proof (relation "measure (\<lambda>(ar, ctx, current, rangeEnd, vref, framesToProcess).
                    nat (\<lfloor>(rangeEnd - current) / step\<rfloor> + 1))")
  show "wf (measure (\<lambda>(ar :: SubtitleArea, ctx :: bool, current, rangeEnd,
                       vref :: Video option, framesToProcess :: Frame list).
                    nat (\<lfloor>(rangeEnd - current) / step\<rfloor> + 1)))"
    by simp
next
  fix ar :: SubtitleArea and ctx :: bool and current rangeEnd :: real
    and vref :: "Video option" and framesToProcess :: "Frame list"
  assume le: "current \<le> rangeEnd"
  have "(rangeEnd - (current + step)) / step = (rangeEnd - current) / step - 1"
    by (simp add: step_def field_simps)
  then have "\<lfloor>(rangeEnd - (current + step)) / step\<rfloor> = \<lfloor>(rangeEnd - current) / step\<rfloor> - 1"
    by simp
  moreover from le have "0 \<le> \<lfloor>(rangeEnd - current) / step\<rfloor>"
    by (simp add: step_def)
  ultimately show
    "((ar, ctx, current + step, rangeEnd, snd (captureFrame ar ctx vref current),
       framesToProcess
         @ [\<lparr>data = fst (captureFrame ar ctx vref current), timestamp = current\<rparr>]),
      (ar, ctx, current, rangeEnd, vref, framesToProcess))
     \<in> measure (\<lambda>(ar, ctx, current, rangeEnd, vref, framesToProcess).
                    nat (\<lfloor>(rangeEnd - current) / step\<rfloor> + 1))"
    by simp
qed

declare sampleLoop.simps [simp del]

text \<open>
  The same loop as the engine runs it: \<open>current += step\<close> rounds the sum to a double
  (\<open>tick\<close>). Above \<open>2^52\<close> a double plus one half can round back to the double itself, so
  the loop need not end; \<open>None\<close> is the run that never leaves the loop.
  \<open>sampleLoop\<close> is this loop with exact sums: the two agree on every window on which
  each sum is a double (lemma \<open>sampleLoopDouble_exact\<close>).
\<close>

definition tick :: "real \<Rightarrow> real" where
  "tick current = fl (current + step)"

partial_function (option) sampleLoopDouble ::
  "SubtitleArea \<Rightarrow> bool \<Rightarrow> real \<Rightarrow> real \<Rightarrow> Video option \<Rightarrow> Frame list
     \<Rightarrow> (Frame list \<times> Video option) option" where
  "sampleLoopDouble ar ctx current rangeEnd vref framesToProcess =
     (if current \<le> rangeEnd
      then sampleLoopDouble ar ctx (tick current) rangeEnd
             (snd (captureFrame ar ctx vref current))
             (framesToProcess
                @ [\<lparr>data = fst (captureFrame ar ctx vref current), timestamp = current\<rparr>])
      else Some (framesToProcess, vref))"

declare sampleLoopDouble.simps [code]

text \<open>
  The dispatch loop of lines 119-129, \<open>for (let i = 0; i < framesToProcess.length;
  i += batchSize)\<close>: the batch is \<open>framesToProcess.slice(i, i + batchSize)\<close>; an error
  thrown by \<open>processFrames\<close> leaves the loop, otherwise the batch's entries are appended
  to \<open>allSubs\<close>.
\<close>

function dispatchLoop ::
  "Env \<Rightarrow> OCRLanguage \<Rightarrow> Frame list \<Rightarrow> nat \<Rightarrow> SubtitleEntry list
     \<Rightarrow> Error + SubtitleEntry list" where
  "dispatchLoop env lang framesToProcess i allSubs =
     (if i < length framesToProcess
      then (case processFrames env (take batchSize (drop i framesToProcess)) lang of
              Inl err \<Rightarrow> Inl err
            | Inr batchResults \<Rightarrow>
                dispatchLoop env lang framesToProcess (i + batchSize)
                  (allSubs @ batchResults))
      else Inr allSubs)"
  by pat_completeness auto
termination
  by (relation "measure (\<lambda>(env, lang, framesToProcess, i, allSubs).
                   length framesToProcess - i)")
     (auto simp: batchSize_def)

declare dispatchLoop.simps [simp del]

text \<open>The state of the \<open>App\<close> component that \<open>startOCR\<close> reads and writes.\<close>

record App =
  videoRef :: "Video option"
  metadata :: "VideoMetadata option"
  area :: SubtitleArea
  language :: OCRLanguage
  timeRange :: TimeRange
  subtitles :: "SubtitleEntry list"
  processState :: OCRProcessState

text \<open>Lines 95-112: pause the video, then sample the window from \<open>timeRange.start\<close>.\<close>

definition sampleFrames :: "Env \<Rightarrow> App \<Rightarrow> Video \<Rightarrow> Frame list \<times> Video option" where
  "sampleFrames env app video =
     sampleLoop (area app) (context2d env)
       (range_start (timeRange app)) (range_end (timeRange app))
       (Some (video\<lparr>paused := True\<rparr>)) []"

definition failedState :: OCRProcessState where
  "failedState = \<lparr>isProcessing = False, progress = 0, currentStep = ''Failed.''\<rparr>"

definition completeState :: OCRProcessState where
  "completeState = \<lparr>isProcessing = False, progress = 100, currentStep = ''Process Complete.''\<rparr>"

text \<open>
  \<open>startOCR\<close>, from the component state before the run to the state after it. Without a
  video element or metadata it returns at once. The \<open>try\<close> block samples, dispatches,
  reconciles, calls \<open>setSubtitles\<close>, restores \<open>currentTime\<close> and reports completion; the
  \<open>catch\<close> block only sets the process state. The assignment of line 144 would throw on
  a null \<open>videoRef.current\<close>, after \<open>setSubtitles\<close> has run.
\<close>

definition startOCR :: "Env \<Rightarrow> App \<Rightarrow> App" where
  "startOCR env app =
     (case videoRef app of
        None \<Rightarrow> app
      | Some video \<Rightarrow>
          if metadata app = None then app
          else
            let originalTime = currentTime video;
                framesToProcess = fst (sampleFrames env app video);
                videoRef' = snd (sampleFrames env app video)
            in case dispatchLoop env (language app) framesToProcess 0 [] of
                 Inl err \<Rightarrow> app\<lparr>videoRef := videoRef', processState := failedState\<rparr>
               | Inr allSubs \<Rightarrow>
                   (case videoRef' of
                      None \<Rightarrow>
                        app\<lparr>videoRef := videoRef', subtitles := reconcile (caseMap env) allSubs,
                            processState := failedState\<rparr>
                    | Some video' \<Rightarrow>
                        app\<lparr>videoRef := Some (video'\<lparr>currentTime := originalTime\<rparr>),
                            subtitles := reconcile (caseMap env) allSubs,
                            processState := completeState\<rparr>))"

text \<open>
  The number of iterations of the sampling loop started at \<open>c\<close> with bound \<open>e\<close>, used to
  state the loop's result in closed form.
\<close>

definition sampleCount :: "real \<Rightarrow> real \<Rightarrow> nat" where
  "sampleCount c e = (if c \<le> e then nat (\<lfloor>(e - c) / step\<rfloor> + 1) else 0)"


section \<open>Concrete inputs\<close>

text \<open>
  A ten-second video positioned at 0.25 s, a component state that holds one subtitle from
  an earlier run and selects the window \<open>[0, 1]\<close>, and an environment whose service
  gives the same reply to every batch.
\<close>

definition exampleVideo :: Video where
  "exampleVideo = \<lparr>currentTime = 0.25, duration = 10, videoWidth = 1920, videoHeight = 1080,
                    paused = False, pixels = (\<lambda>t r. ''data:image/jpeg;base64,AAAA'')\<rparr>"

definition exampleApp :: App where
  "exampleApp = \<lparr>videoRef = Some exampleVideo,
                  metadata = Some \<lparr>md_duration = 10, md_width = 1920, md_height = 1080,
                                   md_aspectRatio = 16 / 9\<rparr>,
                  area = \<lparr>area_x = 10, area_y = 75, area_width = 80, area_height = 18\<rparr>,
                  language = English,
                  timeRange = \<lparr>range_start = 0, range_end = 1\<rparr>,
                  subtitles = [\<lparr>entry_id = ''old'', startTime = 0, endTime = 1, entry_text = str ''Old''\<rparr>],
                  processState = \<lparr>isProcessing = False, progress = 0, currentStep = []\<rparr>\<rparr>"

definition exampleEnv :: "string option \<Rightarrow> ServiceReply \<Rightarrow> Env" where
  "exampleEnv key reply = \<lparr>API_KEY = key, generateContent = (\<lambda>frames lang. reply),
                           newId = (\<lambda>frames idx. ''sub''), context2d = True,
                           caseMap = asciiCaseMap\<rparr>"



section \<open>Auxiliary facts\<close>

lemmas example_defs = exampleVideo_def exampleApp_def exampleEnv_def

lemmas run_defs = startOCR_def sampleFrames_def sampleLoop.simps captureFrame_def cropRect_def
  dispatchLoop.simps processFrames_def apiKeyMissing_def batchSize_def step_def
  failedState_def completeState_def



subsection \<open>Double arithmetic\<close>

lemmas fl_eval = fl_def ulp_def expo_def roundTiesToEven_def compute_bitlen

lemma expo_bounds:
  assumes "x \<noteq> 0"
  shows "2 powi expo x \<le> \<bar>x\<bar> \<and> \<bar>x\<bar> < 2 powi (expo x + 1)"
proof (cases "1 \<le> \<bar>x\<bar>")
  case True
  define n where "n = \<lfloor>\<bar>x\<bar>\<rfloor>"
  from True have n: "0 < n" unfolding n_def by linarith
  have e: "expo x = bitlen n - 1" using True by (simp add: expo_def n_def)
  from n have b1: "1 \<le> bitlen n" by (auto simp: bitlen_alt_def)
  from bitlen_bounds [OF n] have lo: "2 ^ nat (bitlen n - 1) \<le> n" and hi: "n < 2 ^ nat (bitlen n)"
    by simp_all
  have p1: "(2::real) powi (bitlen n - 1) = 2 ^ nat (bitlen n - 1)"
    using b1 by (simp add: power_int_def)
  have p2: "(2::real) powi (bitlen n) = 2 ^ nat (bitlen n)"
    using b1 by (simp add: power_int_def)
  from lo have "(2::real) ^ nat (bitlen n - 1) \<le> of_int n"
    by (metis of_int_le_iff of_int_numeral of_int_power)
  also have "\<dots> \<le> \<bar>x\<bar>" unfolding n_def by simp
  finally have A: "2 powi expo x \<le> \<bar>x\<bar>" by (simp add: e p1)
  from hi have "n + 1 \<le> 2 ^ nat (bitlen n)" by simp
  then have "of_int (n + 1) \<le> (2::real) ^ nat (bitlen n)"
    by (metis of_int_le_iff of_int_numeral of_int_power)
  moreover have "\<bar>x\<bar> < of_int (n + 1)" unfolding n_def by linarith
  ultimately have B: "\<bar>x\<bar> < 2 powi (expo x + 1)" by (simp add: e p2)
  from A B show ?thesis ..
next
  case False
  define y where "y = 1 / \<bar>x\<bar>"
  define m where "m = \<lceil>y\<rceil>"
  from False assms have y1: "1 < y" unfolding y_def by simp
  then have m: "0 < m - 1" unfolding m_def by linarith
  define j where "j = bitlen (m - 1)"
  have e: "expo x = - j" using False by (simp add: expo_def j_def m_def y_def)
  from m have j1: "1 \<le> j" unfolding j_def by (auto simp: bitlen_alt_def)
  from bitlen_bounds [OF m] have lo: "2 ^ nat (j - 1) \<le> m - 1" and hi: "m - 1 < 2 ^ nat j"
    unfolding j_def by simp_all
  have ylo: "of_int (m - 1) < y" unfolding m_def by linarith
  have yhi: "y \<le> of_int m" unfolding m_def by linarith
  from hi have "m \<le> 2 ^ nat j" by simp
  then have "of_int m \<le> (2::real) ^ nat j"
    by (metis of_int_le_iff of_int_numeral of_int_power)
  with yhi have y2: "y \<le> 2 ^ nat j" by linarith
  from lo have "(2::real) ^ nat (j - 1) \<le> of_int (m - 1)"
    by (metis of_int_le_iff of_int_numeral of_int_power)
  with ylo have y3: "2 ^ nat (j - 1) < y" by linarith
  have xpos: "0 < \<bar>x\<bar>" using assms by simp
  have xy: "\<bar>x\<bar> = 1 / y" unfolding y_def by simp
  have p1: "(2::real) powi (- j) = 1 / 2 ^ nat j"
    using j1 by (simp add: power_int_def field_simps)
  have p2: "(2::real) powi (- j + 1) = 1 / 2 ^ nat (j - 1)"
    using j1 by (cases "j = 1") (simp_all add: power_int_def field_simps)
  from y2 y1 have A: "2 powi expo x \<le> \<bar>x\<bar>"
    unfolding e p1 xy by (simp add: frac_le)
  from y3 have B: "\<bar>x\<bar> < 2 powi (expo x + 1)"
    unfolding e p2 xy by (simp add: frac_less2)
  from A B show ?thesis ..
qed

lemma roundTiesToEven_of_int: "roundTiesToEven (of_int k) = k"
  by (simp add: roundTiesToEven_def)

lemma roundTiesToEven_error: "\<bar>of_int (roundTiesToEven y) - y\<bar> \<le> 1 / 2"
  unfolding roundTiesToEven_def by (auto simp: abs_if) linarith+

lemma ulp_pos: "0 < ulp x"
  by (simp add: ulp_def)

lemma fl_error: "\<bar>fl x - x\<bar> \<le> ulp x / 2"
proof -
  have "fl x - x = (of_int (roundTiesToEven (x / ulp x)) - x / ulp x) * ulp x"
    using ulp_pos [of x] by (simp add: fl_def field_simps)
  then have "\<bar>fl x - x\<bar> = \<bar>of_int (roundTiesToEven (x / ulp x)) - x / ulp x\<bar> * ulp x"
    using ulp_pos [of x] by (simp add: abs_mult)
  also have "\<dots> \<le> 1 / 2 * ulp x"
    using roundTiesToEven_error [of "x / ulp x"] ulp_pos [of x]
    by (intro mult_right_mono) simp_all
  finally show ?thesis by simp
qed

lemma fl_exact: "x = of_int k * ulp x \<Longrightarrow> fl x = x"
proof -
  assume a: "x = of_int k * ulp x"
  then have "x / ulp x = of_int k" using ulp_pos [of x] by (simp add: field_simps)
  then show ?thesis using a by (simp add: fl_def roundTiesToEven_of_int)
qed


subsection \<open>The merge pass\<close>

lemma toLowerCase_Nil_iff: "toLowerCase lc s = [] \<longleftrightarrow> s = []"
  by transfer (simp add: isCaseMap_def)

lemma toLowerCase_Nil: "toLowerCase lc [] = []"
  by (simp add: toLowerCase_Nil_iff)

lemma toLowerCase_ascii:
  "list_all (\<lambda>c. c < 0x80) s \<Longrightarrow> toLowerCase lc s = map asciiLower s"
  by transfer (simp add: isCaseMap_def)

lemma toLowerCase_asciiCaseMap: "toLowerCase asciiCaseMap s = map asciiLower s"
  by transfer simp

lemmas string_defs = trim_def isWhiteSpace_def str_def asciiLower_def toLowerCase_ascii

lemma reconcileStep_cases:
  "reconcileStep lc acc s =
     (if acc \<noteq> [] \<and> mergeable lc (last acc) s
      then butlast acc @ [(last acc)\<lparr>endTime := max (endTime (last acc)) (endTime s)\<rparr>]
      else if trim (entry_text s) \<noteq> [] then acc @ [s] else acc)"
  by (simp add: reconcileStep_def mergeable_def)

lemma reconcileStep_startTime:
  "map startTime (reconcileStep lc acc s) = map startTime acc \<or> reconcileStep lc acc s = acc @ [s]"
proof (cases "acc \<noteq> [] \<and> mergeable lc (last acc) s")
  case True
  then have "acc = butlast acc @ [last acc]" by simp
  then have "map startTime acc = map startTime (butlast acc) @ [startTime (last acc)]"
    by (metis list.simps(8,9) map_append)
  with True show ?thesis by (simp add: reconcileStep_cases)
next
  case False
  then show ?thesis by (auto simp: reconcileStep_cases)
qed

lemma foldl_reconcileStep_sorted:
  "sorted (map startTime acc) \<Longrightarrow> sorted (map startTime zs)
   \<Longrightarrow> (\<forall>a \<in> set acc. \<forall>z \<in> set zs. startTime a \<le> startTime z)
   \<Longrightarrow> sorted (map startTime (foldl (reconcileStep lc) acc zs))"
proof (induction zs arbitrary: acc)
  case Nil
  then show ?case by simp
next
  case (Cons z zs)
  let ?acc = "reconcileStep lc acc z"
  have s: "sorted (map startTime ?acc)"
    using reconcileStep_startTime [of lc acc z] Cons.prems
    by (auto simp: sorted_append)
  have "set (map startTime ?acc) \<subseteq> set (map startTime acc) \<union> {startTime z}"
  proof (cases "map startTime ?acc = map startTime acc")
    case True
    then show ?thesis by (simp only: Un_upper1)
  next
    case False
    with reconcileStep_startTime [of lc acc z] have "?acc = acc @ [z]" by simp
    then show ?thesis by simp
  qed
  then have b: "\<forall>a \<in> set ?acc. \<forall>z' \<in> set zs. startTime a \<le> startTime z'"
    using Cons.prems by fastforce
  from Cons.prems have "sorted (map startTime zs)" by simp
  from Cons.IH [OF s this b] show ?case by simp
qed

lemma reconcile_sorted: "sorted (map startTime (reconcile lc xs))"
  unfolding reconcile_def
  by (rule foldl_reconcileStep_sorted) simp_all

lemma settled_Nil: "settled lc []"
  by (simp add: settled_def)

lemma mergeable_endTime_update:
  "mergeable lc a (b\<lparr>endTime := t\<rparr>) = mergeable lc a b"
  by (simp add: mergeable_def)

lemma settled_snoc:
  "settled lc (ys @ [e]) \<longleftrightarrow>
     settled lc ys \<and> trim (entry_text e) \<noteq> [] \<and> (ys = [] \<or> \<not> mergeable lc (last ys) e)"
  by (auto simp: settled_def successively_append_iff)

lemma settled_reconcileStep: "settled lc acc \<Longrightarrow> settled lc (reconcileStep lc acc s)"
proof (cases "acc \<noteq> [] \<and> mergeable lc (last acc) s")
  case True
  assume st: "settled lc acc"
  from True have acc: "acc = butlast acc @ [last acc]" by simp
  from st have "settled lc (butlast acc @ [last acc])" using acc by simp
  then have "settled lc (butlast acc @ [(last acc)\<lparr>endTime := max (endTime (last acc)) (endTime s)\<rparr>])"
    unfolding settled_snoc by (simp add: mergeable_endTime_update)
  with True show ?thesis by (simp add: reconcileStep_cases)
next
  case False
  assume st: "settled lc acc"
  with False show ?thesis
    by (auto simp: reconcileStep_cases settled_snoc)
qed

lemma settled_foldl: "settled lc acc \<Longrightarrow> settled lc (foldl (reconcileStep lc) acc zs)"
  by (induction zs arbitrary: acc) (simp_all add: settled_reconcileStep)

lemma settled_reconcile: "settled lc (reconcile lc xs)"
  unfolding reconcile_def by (rule settled_foldl) (rule settled_Nil)

lemma foldl_settled_id:
  "settled lc (acc @ zs) \<Longrightarrow> foldl (reconcileStep lc) acc zs = acc @ zs"
proof (induction zs arbitrary: acc)
  case Nil
  then show ?case by simp
next
  case (Cons z zs)
  from Cons.prems have s: "settled lc ((acc @ [z]) @ zs)" by simp
  then have "settled lc (acc @ [z])"
    by (auto simp: settled_def successively_append_iff)
  then have "reconcileStep lc acc z = acc @ [z]"
    by (auto simp: settled_snoc reconcileStep_cases)
  with Cons.IH [OF s] show ?case by simp
qed

lemma reconcile_fixed: "settled lc ys \<Longrightarrow> sorted (map startTime ys) \<Longrightarrow> reconcile lc ys = ys"
  using foldl_settled_id [of lc "[]" ys]
  by (simp add: reconcile_def sort_key_id_if_sorted)

lemma mergeable_nonempty:
  "mergeable lc l s \<Longrightarrow> trim (entry_text l) \<noteq> [] \<Longrightarrow> trim (entry_text s) \<noteq> []"
proof
  assume m: "mergeable lc l s" and l: "trim (entry_text l) \<noteq> []" and s: "trim (entry_text s) = []"
  from m s have "toLowerCase lc (trim (entry_text l)) = toLowerCase lc []"
    by (simp add: mergeable_def)
  with l show False by (simp add: toLowerCase_Nil toLowerCase_Nil_iff)
qed

lemma reconcileStep_empty:
  assumes "settled lc acc" "trim (entry_text s) = []"
  shows "reconcileStep lc acc s = acc"
proof -
  have "\<not> (acc \<noteq> [] \<and> mergeable lc (last acc) s)"
  proof
    assume a: "acc \<noteq> [] \<and> mergeable lc (last acc) s"
    then have "last acc \<in> set acc" by simp
    with assms(1) have "trim (entry_text (last acc)) \<noteq> []"
      by (simp add: settled_def list_all_iff)
    with a assms(2) show False using mergeable_nonempty by blast
  qed
  with assms(2) show ?thesis by (auto simp: reconcileStep_cases)
qed

lemma foldl_reconcileStep_filter:
  "settled lc acc \<Longrightarrow>
   foldl (reconcileStep lc) acc (filter (\<lambda>c. trim (entry_text c) \<noteq> []) zs) = foldl (reconcileStep lc) acc zs"
proof (induction zs arbitrary: acc)
  case Nil
  then show ?case by simp
next
  case (Cons z zs)
  then show ?case
    by (cases "trim (entry_text z) = []")
       (simp_all add: reconcileStep_empty settled_reconcileStep)
qed

lemma reconcile_filter:
  "reconcile lc (filter (\<lambda>c. trim (entry_text c) \<noteq> []) xs) = reconcile lc xs"
  by (simp add: reconcile_def filter_sort [symmetric] foldl_reconcileStep_filter settled_Nil)

lemma reconcile_snoc:
  assumes "sorted (map startTime (seen @ [sub]))"
  shows "reconcile lc (seen @ [sub]) = reconcileStep lc (reconcile lc seen) sub"
proof -
  from assms have "sorted (map startTime seen)" by (simp add: sorted_append)
  with assms show ?thesis
    by (simp add: reconcile_def sort_key_id_if_sorted del: map_append)
qed


subsection \<open>The sampling loop\<close>

lemma sampleCount_step:
  assumes "c \<le> e"
  shows "sampleCount c e = Suc (sampleCount (c + step) e)"
proof -
  have eq: "(e - (c + step)) / step = (e - c) / step - 1"
    by (simp add: step_def field_simps)
  have nn: "0 \<le> \<lfloor>(e - c) / step\<rfloor>" using assms by (simp add: step_def)
  then have suc: "nat (\<lfloor>(e - c) / step\<rfloor> - 1 + 1) = Suc (nat (\<lfloor>(e - c) / step\<rfloor> - 1))"
    if "1 \<le> \<lfloor>(e - c) / step\<rfloor>" using that by arith
  show ?thesis
  proof (cases "c + step \<le> e")
    case True
    then have "1 \<le> (e - c) / step" by (simp add: step_def)
    then have "1 \<le> \<lfloor>(e - c) / step\<rfloor>" by linarith
    from suc [OF this] True assms show ?thesis
      by (simp only: sampleCount_def eq if_True floor_diff_one)
  next
    case False
    then have "(e - c) / step < 1" by (simp add: step_def)
    with nn have "\<lfloor>(e - c) / step\<rfloor> = 0" by linarith
    with False assms show ?thesis by (simp add: sampleCount_def)
  qed
qed



lemma cropRect_currentTime: "cropRect ar (v\<lparr>currentTime := t\<rparr>) = cropRect ar v"
  by (simp add: cropRect_def)


lemma sampleLoop_video:
  "snd (sampleLoop ar True c e (Some (v\<lparr>currentTime := t\<rparr>)) fs) =
     Some (v\<lparr>currentTime :=
              if c \<le> e then min (c + real (sampleCount c e - 1) * step) (duration v) else t\<rparr>)"
proof (induction ar "True" c e "Some (v\<lparr>currentTime := t\<rparr>)" fs arbitrary: t rule: sampleLoop.induct)
  case (1 ar current rangeEnd framesToProcess)
  show ?case
  proof (cases "current \<le> rangeEnd")
    case True
    have cf: "captureFrame ar True (Some (v\<lparr>currentTime := t\<rparr>)) current =
          (pixels v (min current (duration v)) (cropRect ar v),
           Some (v\<lparr>currentTime := min current (duration v)\<rparr>))"
      by (simp add: captureFrame_def cropRect_currentTime)
    show ?thesis
    proof (cases "current + step \<le> rangeEnd")
      case le: True
      then have "sampleCount current rangeEnd - 1 = Suc (sampleCount (current + step) rangeEnd - 1)"
        using sampleCount_step [OF True] sampleCount_step [OF le] by simp
      with 1 [OF True, of "min current (duration v)"] True cf le show ?thesis
        by (subst sampleLoop.simps) (simp add: algebra_simps)
    next
      case gt: False
      then have "sampleCount (current + step) rangeEnd = 0" by (simp add: sampleCount_def)
      then have "sampleCount current rangeEnd - 1 = 0"
        using sampleCount_step [OF True] by simp
      with 1 [OF True, of "min current (duration v)"] True cf gt show ?thesis
        by (subst sampleLoop.simps) simp
    qed
  next
    case False
    then show ?thesis
      by (subst sampleLoop.simps) simp
  qed
qed

lemma sampleLoop_Some:
  "\<exists>v'. snd (sampleLoop ar ctx c e (Some v) fs) = Some v'"
proof (induction ar ctx c e "Some v" fs arbitrary: v rule: sampleLoop.induct)
  case (1 ar ctx current rangeEnd framesToProcess)
  show ?case
  proof (cases "current \<le> rangeEnd")
    case True
    obtain w where w: "snd (captureFrame ar ctx (Some v) current) = Some w"
      by (cases ctx) (simp_all add: captureFrame_def)
    from 1 [OF True w] True w show ?thesis
      by (subst sampleLoop.simps) simp
  next
    case False
    then show ?thesis by (subst sampleLoop.simps) simp
  qed
qed


lemma sampleLoopDouble_returns:
  "rangeEnd < (tick ^^ n) c \<Longrightarrow>
   \<exists>N frames vref'. N \<le> n
     \<and> sampleLoopDouble ar ctx c rangeEnd v fs = Some (fs @ frames, vref')
     \<and> map timestamp frames = map (\<lambda>i. (tick ^^ i) c) [0..<N]
     \<and> (\<forall>i<N. (tick ^^ i) c \<le> rangeEnd)
     \<and> rangeEnd < (tick ^^ N) c"
proof (induction n arbitrary: c v fs)
  case 0
  then have "sampleLoopDouble ar ctx c rangeEnd v fs = Some (fs @ [], v)"
    by (subst sampleLoopDouble.simps) simp
  with 0 show ?case by (intro exI [of _ 0] exI [of _ "[]"] exI [of _ v]) simp
next
  case (Suc n)
  show ?case
  proof (cases "c \<le> rangeEnd")
    case False
    then have "sampleLoopDouble ar ctx c rangeEnd v fs = Some (fs @ [], v)"
      by (subst sampleLoopDouble.simps) simp
    with False show ?thesis by (intro exI [of _ 0] exI [of _ "[]"] exI [of _ v]) simp
  next
    case True
    let ?f = "\<lparr>data = fst (captureFrame ar ctx v c), timestamp = c\<rparr>"
    from Suc.prems have "rangeEnd < (tick ^^ n) (tick c)" by (simp add: funpow_swap1)
    from Suc.IH [OF this, of "snd (captureFrame ar ctx v c)" "fs @ [?f]"]
    obtain N frames vref' where N: "N \<le> n"
      and r: "sampleLoopDouble ar ctx (tick c) rangeEnd (snd (captureFrame ar ctx v c)) (fs @ [?f])
               = Some ((fs @ [?f]) @ frames, vref')"
      and ts: "map timestamp frames = map (\<lambda>i. (tick ^^ i) (tick c)) [0..<N]"
      and le: "\<forall>i<N. (tick ^^ i) (tick c) \<le> rangeEnd"
      and gt: "rangeEnd < (tick ^^ N) (tick c)"
      by blast
    have 1: "sampleLoopDouble ar ctx c rangeEnd v fs = Some (fs @ (?f # frames), vref')"
      using True r by (subst sampleLoopDouble.simps) simp
    have 2: "map timestamp (?f # frames) = map (\<lambda>i. (tick ^^ i) c) [0..<Suc N]"
      using ts by (simp add: upt_conv_Cons map_Suc_upt [symmetric] funpow_swap1 del: upt_Suc)
    have 3: "\<forall>i<Suc N. (tick ^^ i) c \<le> rangeEnd"
    proof (intro allI impI)
      fix i assume "i < Suc N"
      then show "(tick ^^ i) c \<le> rangeEnd"
        using True le by (cases i) (simp_all add: funpow_swap1)
    qed
    have 4: "rangeEnd < (tick ^^ Suc N) c" using gt by (simp add: funpow_swap1)
    from N 1 2 3 4 show ?thesis
      by (intro exI [of _ "Suc N"] exI [of _ "?f # frames"] exI [of _ vref']) simp
  qed
qed

lemma sampleLoopDouble_Some_exceeds:
  assumes "sampleLoopDouble ar ctx c rangeEnd v fs = Some r"
  shows "\<exists>n. rangeEnd < (tick ^^ n) c"
proof (rule sampleLoopDouble.raw_induct
    [where P = "\<lambda>ar ctx c rangeEnd v fs r. \<exists>n. rangeEnd < (tick ^^ n) c", OF _ assms])
  fix f :: "SubtitleArea \<Rightarrow> bool \<Rightarrow> real \<Rightarrow> real \<Rightarrow> Video option \<Rightarrow> Frame list
              \<Rightarrow> (Frame list \<times> Video option) option"
  fix ar ctx c rangeEnd v fs r
  assume IH: "\<And>ar ctx c rangeEnd v fs r.
                f ar ctx c rangeEnd v fs = Some r \<Longrightarrow> \<exists>n. rangeEnd < (tick ^^ n) c"
  assume body: "(if c \<le> rangeEnd
      then f ar ctx (tick c) rangeEnd (snd (captureFrame ar ctx v c))
             (fs @ [\<lparr>data = fst (captureFrame ar ctx v c), timestamp = c\<rparr>])
      else Some (fs, v)) = Some r"
  show "\<exists>n. rangeEnd < (tick ^^ n) c"
  proof (cases "c \<le> rangeEnd")
    case True
    with body have "f ar ctx (tick c) rangeEnd (snd (captureFrame ar ctx v c))
        (fs @ [\<lparr>data = fst (captureFrame ar ctx v c), timestamp = c\<rparr>]) = Some r"
      by simp
    from IH [OF this] obtain n where "rangeEnd < (tick ^^ n) (tick c)" by blast
    then have "rangeEnd < (tick ^^ Suc n) c" by (simp add: funpow_swap1)
    then show ?thesis by blast
  next
    case False
    then have "rangeEnd < (tick ^^ 0) c" by simp
    then show ?thesis by blast
  qed
qed

lemma sampleLoopDouble_None:
  "(\<forall>n. (tick ^^ n) c \<le> rangeEnd) \<Longrightarrow> sampleLoopDouble ar ctx c rangeEnd v fs = None"
  using sampleLoopDouble_Some_exceeds [of ar ctx c rangeEnd v fs]
  by (cases "sampleLoopDouble ar ctx c rangeEnd v fs") (auto simp: not_less [symmetric])

lemma sampleLoopDouble_exact:
  "(\<forall>i<sampleCount c e. fl (c + real i * step + step) = c + real i * step + step)
   \<Longrightarrow> sampleLoopDouble ar ctx c e v fs = Some (sampleLoop ar ctx c e v fs)"
proof (induction ar ctx c e v fs rule: sampleLoop.induct)
  case (1 ar ctx current rangeEnd vref framesToProcess)
  show ?case
  proof (cases "current \<le> rangeEnd")
    case True
    then have cnt: "sampleCount current rangeEnd = Suc (sampleCount (current + step) rangeEnd)"
      by (rule sampleCount_step)
    then have "0 < sampleCount current rangeEnd" by simp
    with "1.prems" [rule_format, of 0] have "fl (current + real 0 * step + step) = current + real 0 * step + step"
      by blast
    then have t: "tick current = current + step" by (simp add: tick_def)
    have "\<forall>i<sampleCount (current + step) rangeEnd.
            fl (current + step + real i * step + step) = current + step + real i * step + step"
    proof (intro allI impI)
      fix i assume "i < sampleCount (current + step) rangeEnd"
      then have "Suc i < sampleCount current rangeEnd" by (simp add: cnt)
      with "1.prems" have "fl (current + real (Suc i) * step + step)
           = current + real (Suc i) * step + step" by blast
      then show "fl (current + step + real i * step + step) = current + step + real i * step + step"
        by (simp add: algebra_simps)
    qed
    from "1.IH" [OF True this] True t show ?thesis
      by (subst sampleLoopDouble.simps, subst sampleLoop.simps) simp
  next
    case False
    then show ?thesis
      by (subst sampleLoopDouble.simps, subst sampleLoop.simps) simp
  qed
qed


subsection \<open>Dispatch and the run\<close>


lemma dispatchLoop_fails:
  "i + k * batchSize < length fs
   \<Longrightarrow> isl (processFrames env (take batchSize (drop (i + k * batchSize) fs)) lang)
   \<Longrightarrow> isl (dispatchLoop env lang fs i acc)"
proof (induction env lang fs i acc arbitrary: k rule: dispatchLoop.induct)
  case (1 env lang framesToProcess i allSubs)
  from "1.prems"(1) have lt: "i < length framesToProcess" by simp
  show ?case
  proof (cases "processFrames env (take batchSize (drop i framesToProcess)) lang")
    case (Inl err)
    with lt show ?thesis by (subst dispatchLoop.simps) simp
  next
    case (Inr batchResults)
    with "1.prems"(2) have "k \<noteq> 0" by (cases k) auto
    then obtain k' where k: "k = Suc k'" by (cases k) auto
    from "1.prems" have
      "i + batchSize + k' * batchSize < length framesToProcess"
      "isl (processFrames env (take batchSize (drop (i + batchSize + k' * batchSize) framesToProcess)) lang)"
      by (simp_all add: k add.assoc)
    from "1.IH" [OF lt Inr this] Inr lt show ?thesis
      by (subst dispatchLoop.simps) simp
  qed
qed

lemma startOCR_failed:
  assumes "videoRef app = Some video" "metadata app \<noteq> None"
    "isl (dispatchLoop env (language app) (fst (sampleFrames env app video)) 0 [])"
  shows "startOCR env app =
           app\<lparr>videoRef := snd (sampleFrames env app video), processState := failedState\<rparr>"
  using assms by (auto simp: startOCR_def Let_def isl_def)

lemma startOCR_restores_on_success:
  assumes "videoRef app = Some video" "metadata app \<noteq> None"
    "dispatchLoop env (language app) (fst (sampleFrames env app video)) 0 [] = Inr allSubs"
  shows "\<exists>video'. videoRef (startOCR env app) = Some video'
           \<and> currentTime video' = currentTime video
           \<and> subtitles (startOCR env app) = reconcile (caseMap env) allSubs
           \<and> processState (startOCR env app) = completeState"
proof -
  obtain w where "snd (sampleFrames env app video) = Some w"
    unfolding sampleFrames_def using sampleLoop_Some by blast
  with assms show ?thesis by (auto simp: startOCR_def Let_def)
qed


section \<open>The claims\<close>


subsection \<open>C1: the merge rule of reconciliation\<close>

text \<open>
  Claim C1 says that a candidate is merged exactly when the normalised texts are equal
  and its \<open>startTime\<close> is at most \<open>lastAccepted.endTime + 0.3\<close>. The code compares with
  the rounded double sum. An entry ending at 0.6 and a candidate with the same text
  starting at 0.9 are 0.3 apart, yet \<open>0.6 + 0.3\<close> evaluates to 0.8999999999999999 and
  they stay two entries. In the other direction, the double 0.4 exceeds the exact sum of
  the doubles 0.1 and 0.3, yet that sum rounds up to 0.4 and the candidate is merged.
\<close>

theorem merge_tolerance_counterexample:
  "(0.9 :: real) \<le> 0.6 + 0.3
   \<and> reconcile asciiCaseMap
        [\<lparr>entry_id = ''s1'', startTime = 0, endTime = fl 0.6, entry_text = str ''Hi''\<rparr>,
         \<lparr>entry_id = ''s2'', startTime = fl 0.9, endTime = fl 1.2, entry_text = str ''Hi''\<rparr>]
       = [\<lparr>entry_id = ''s1'', startTime = 0, endTime = fl 0.6, entry_text = str ''Hi''\<rparr>,
          \<lparr>entry_id = ''s2'', startTime = fl 0.9, endTime = fl 1.2, entry_text = str ''Hi''\<rparr>]
   \<and> fl 0.1 + fl 0.3 < fl 0.4
   \<and> reconcile asciiCaseMap
        [\<lparr>entry_id = ''s1'', startTime = 0, endTime = fl 0.1, entry_text = str ''Hi''\<rparr>,
         \<lparr>entry_id = ''s2'', startTime = fl 0.4, endTime = 0.5, entry_text = str ''Hi''\<rparr>]
       = [\<lparr>entry_id = ''s1'', startTime = 0, endTime = 0.5, entry_text = str ''Hi''\<rparr>]"
proof (intro conjI)
  show "(0.9 :: real) \<le> 0.6 + 0.3" by simp
  show "fl 0.1 + fl 0.3 < fl 0.4" by (simp add: fl_eval)
  show "reconcile asciiCaseMap
        [\<lparr>entry_id = ''s1'', startTime = 0, endTime = fl 0.6, entry_text = str ''Hi''\<rparr>,
         \<lparr>entry_id = ''s2'', startTime = fl 0.9, endTime = fl 1.2, entry_text = str ''Hi''\<rparr>]
       = [\<lparr>entry_id = ''s1'', startTime = 0, endTime = fl 0.6, entry_text = str ''Hi''\<rparr>,
          \<lparr>entry_id = ''s2'', startTime = fl 0.9, endTime = fl 1.2, entry_text = str ''Hi''\<rparr>]"
    by (simp add: reconcile_def reconcileStep_def string_defs) (simp add: fl_eval)
  show "reconcile asciiCaseMap
        [\<lparr>entry_id = ''s1'', startTime = 0, endTime = fl 0.1, entry_text = str ''Hi''\<rparr>,
         \<lparr>entry_id = ''s2'', startTime = fl 0.4, endTime = 0.5, entry_text = str ''Hi''\<rparr>]
       = [\<lparr>entry_id = ''s1'', startTime = 0, endTime = 0.5, entry_text = str ''Hi''\<rparr>]"
    by (simp add: reconcile_def reconcileStep_def string_defs) (simp add: fl_eval)
qed

text \<open>
  Claim C1, amended. Let \<open>sub\<close> be the last candidate of a sequence sorted by
  \<open>startTime\<close>, and let the last accepted entry be the last entry that reconciling the
  candidates before it gives. \<open>sub\<close> is merged into that entry exactly when the entry
  exists, the trimmed, lower-cased texts are equal, and \<open>startTime\<close> of \<open>sub\<close> is at most
  the double sum \<open>lastAccepted.endTime + 0.3\<close>, rounded as the engine rounds it. Merging
  replaces the last entry by one with the same id, \<open>startTime\<close> and text and with
  \<open>endTime\<close> the maximum of both end times. Otherwise no accepted entry changes: \<open>sub\<close>
  is appended if its trimmed text is non-empty and dropped if not.

  The examples, for every case mapping: \<open>("Hi", 1.0, 1.4), ("hi ", 1.5, 2.0)\<close> reconcile
  to \<open>("Hi", 1.0, 2.0)\<close>, also when given in the opposite order and when the second
  text ends in a no-break space and an ideographic space; \<open>("Hi", 1.0, 1.4)\<close> and
  \<open>("Hi", 2.0, 2.4)\<close> stay two entries; so do two candidates inside the tolerance
  whose texts differ (\<open>"Hi"\<close> and \<open>"Ho"\<close>, \<open>"Hi"\<close> and \<open>"H i"\<close>).
\<close>

theorem merge_rule:
  "(sorted (map startTime (seen @ [sub]))
      \<and> reconcile lc seen \<noteq> []
      \<and> toLowerCase lc (trim (entry_text sub))
          = toLowerCase lc (trim (entry_text (last (reconcile lc seen))))
      \<and> startTime sub \<le> fl (endTime (last (reconcile lc seen)) + fl 0.3)
    \<longrightarrow> reconcile lc (seen @ [sub]) =
          butlast (reconcile lc seen)
            @ [\<lparr>entry_id = entry_id (last (reconcile lc seen)),
                startTime = startTime (last (reconcile lc seen)),
                endTime = max (endTime (last (reconcile lc seen))) (endTime sub),
                entry_text = entry_text (last (reconcile lc seen))\<rparr>])
   \<and> (sorted (map startTime (seen @ [sub]))
      \<and> \<not> (reconcile lc seen \<noteq> []
            \<and> toLowerCase lc (trim (entry_text sub))
                = toLowerCase lc (trim (entry_text (last (reconcile lc seen))))
            \<and> startTime sub \<le> fl (endTime (last (reconcile lc seen)) + fl 0.3))
    \<longrightarrow> reconcile lc (seen @ [sub]) =
          (if trim (entry_text sub) \<noteq> [] then reconcile lc seen @ [sub]
           else reconcile lc seen))
   \<and> reconcile lc [\<lparr>entry_id = a, startTime = 1.0, endTime = fl 1.4, entry_text = str ''Hi''\<rparr>,
                    \<lparr>entry_id = b, startTime = 1.5, endTime = 2.0, entry_text = str ''hi ''\<rparr>]
       = [\<lparr>entry_id = a, startTime = 1.0, endTime = 2.0, entry_text = str ''Hi''\<rparr>]
   \<and> reconcile lc [\<lparr>entry_id = b, startTime = 1.5, endTime = 2.0, entry_text = str ''hi ''\<rparr>,
                    \<lparr>entry_id = a, startTime = 1.0, endTime = fl 1.4, entry_text = str ''Hi''\<rparr>]
       = [\<lparr>entry_id = a, startTime = 1.0, endTime = 2.0, entry_text = str ''Hi''\<rparr>]
   \<and> reconcile lc [\<lparr>entry_id = a, startTime = 1.0, endTime = fl 1.4, entry_text = str ''Hi''\<rparr>,
                    \<lparr>entry_id = b, startTime = 1.5, endTime = 2.0,
                      entry_text = str ''hi'' @ [0xA0, 0x3000]\<rparr>]
       = [\<lparr>entry_id = a, startTime = 1.0, endTime = 2.0, entry_text = str ''Hi''\<rparr>]
   \<and> reconcile lc [\<lparr>entry_id = a, startTime = 1.0, endTime = fl 1.4, entry_text = str ''Hi''\<rparr>,
                    \<lparr>entry_id = b, startTime = 2.0, endTime = fl 2.4, entry_text = str ''Hi''\<rparr>]
       = [\<lparr>entry_id = a, startTime = 1.0, endTime = fl 1.4, entry_text = str ''Hi''\<rparr>,
          \<lparr>entry_id = b, startTime = 2.0, endTime = fl 2.4, entry_text = str ''Hi''\<rparr>]
   \<and> reconcile lc [\<lparr>entry_id = a, startTime = 1.0, endTime = fl 1.4, entry_text = str ''Hi''\<rparr>,
                    \<lparr>entry_id = b, startTime = 1.5, endTime = 2.0, entry_text = str ''Ho''\<rparr>]
       = [\<lparr>entry_id = a, startTime = 1.0, endTime = fl 1.4, entry_text = str ''Hi''\<rparr>,
          \<lparr>entry_id = b, startTime = 1.5, endTime = 2.0, entry_text = str ''Ho''\<rparr>]
   \<and> reconcile lc [\<lparr>entry_id = a, startTime = 1.0, endTime = fl 1.4, entry_text = str ''Hi''\<rparr>,
                    \<lparr>entry_id = b, startTime = 1.5, endTime = 2.0, entry_text = str ''H i''\<rparr>]
       = [\<lparr>entry_id = a, startTime = 1.0, endTime = fl 1.4, entry_text = str ''Hi''\<rparr>,
          \<lparr>entry_id = b, startTime = 1.5, endTime = 2.0, entry_text = str ''H i''\<rparr>]"
proof (intro conjI impI)
  let ?l = "last (reconcile lc seen)"
  assume c: "sorted (map startTime (seen @ [sub]))
      \<and> reconcile lc seen \<noteq> []
      \<and> toLowerCase lc (trim (entry_text sub)) = toLowerCase lc (trim (entry_text ?l))
      \<and> startTime sub \<le> fl (endTime ?l + fl 0.3)"
  have "?l\<lparr>endTime := max (endTime ?l) (endTime sub)\<rparr> =
        \<lparr>entry_id = entry_id ?l, startTime = startTime ?l,
         endTime = max (endTime ?l) (endTime sub), entry_text = entry_text ?l\<rparr>"
    by (cases ?l) simp
  with c show "reconcile lc (seen @ [sub]) =
          butlast (reconcile lc seen)
            @ [\<lparr>entry_id = entry_id ?l, startTime = startTime ?l,
                endTime = max (endTime ?l) (endTime sub), entry_text = entry_text ?l\<rparr>]"
    by (simp add: reconcile_snoc reconcileStep_def)
next
  let ?l = "last (reconcile lc seen)"
  assume c: "sorted (map startTime (seen @ [sub]))
      \<and> \<not> (reconcile lc seen \<noteq> []
            \<and> toLowerCase lc (trim (entry_text sub)) = toLowerCase lc (trim (entry_text ?l))
            \<and> startTime sub \<le> fl (endTime ?l + fl 0.3))"
  then have "reconcile lc (seen @ [sub]) = reconcileStep lc (reconcile lc seen) sub"
    by (simp add: reconcile_snoc)
  with c show "reconcile lc (seen @ [sub]) =
          (if trim (entry_text sub) \<noteq> [] then reconcile lc seen @ [sub]
           else reconcile lc seen)"
    by (auto simp: reconcileStep_def)
next
  show "reconcile lc [\<lparr>entry_id = a, startTime = 1.0, endTime = fl 1.4, entry_text = str ''Hi''\<rparr>,
                    \<lparr>entry_id = b, startTime = 1.5, endTime = 2.0, entry_text = str ''hi ''\<rparr>]
       = [\<lparr>entry_id = a, startTime = 1.0, endTime = 2.0, entry_text = str ''Hi''\<rparr>]"
    by (simp add: reconcile_def reconcileStep_def string_defs) (simp add: fl_eval)
next
  show "reconcile lc [\<lparr>entry_id = b, startTime = 1.5, endTime = 2.0, entry_text = str ''hi ''\<rparr>,
                    \<lparr>entry_id = a, startTime = 1.0, endTime = fl 1.4, entry_text = str ''Hi''\<rparr>]
       = [\<lparr>entry_id = a, startTime = 1.0, endTime = 2.0, entry_text = str ''Hi''\<rparr>]"
    by (simp add: reconcile_def reconcileStep_def string_defs) (simp add: fl_eval)
next
  show "reconcile lc [\<lparr>entry_id = a, startTime = 1.0, endTime = fl 1.4, entry_text = str ''Hi''\<rparr>,
                    \<lparr>entry_id = b, startTime = 1.5, endTime = 2.0,
                      entry_text = str ''hi'' @ [0xA0, 0x3000]\<rparr>]
       = [\<lparr>entry_id = a, startTime = 1.0, endTime = 2.0, entry_text = str ''Hi''\<rparr>]"
    by (simp add: reconcile_def reconcileStep_def string_defs) (simp add: fl_eval)
next
  show "reconcile lc [\<lparr>entry_id = a, startTime = 1.0, endTime = fl 1.4, entry_text = str ''Hi''\<rparr>,
                    \<lparr>entry_id = b, startTime = 2.0, endTime = fl 2.4, entry_text = str ''Hi''\<rparr>]
       = [\<lparr>entry_id = a, startTime = 1.0, endTime = fl 1.4, entry_text = str ''Hi''\<rparr>,
          \<lparr>entry_id = b, startTime = 2.0, endTime = fl 2.4, entry_text = str ''Hi''\<rparr>]"
    by (simp add: reconcile_def reconcileStep_def string_defs) (simp add: fl_eval)
next
  show "reconcile lc [\<lparr>entry_id = a, startTime = 1.0, endTime = fl 1.4, entry_text = str ''Hi''\<rparr>,
                    \<lparr>entry_id = b, startTime = 1.5, endTime = 2.0, entry_text = str ''Ho''\<rparr>]
       = [\<lparr>entry_id = a, startTime = 1.0, endTime = fl 1.4, entry_text = str ''Hi''\<rparr>,
          \<lparr>entry_id = b, startTime = 1.5, endTime = 2.0, entry_text = str ''Ho''\<rparr>]"
    by (simp add: reconcile_def reconcileStep_def string_defs)
next
  show "reconcile lc [\<lparr>entry_id = a, startTime = 1.0, endTime = fl 1.4, entry_text = str ''Hi''\<rparr>,
                    \<lparr>entry_id = b, startTime = 1.5, endTime = 2.0, entry_text = str ''H i''\<rparr>]
       = [\<lparr>entry_id = a, startTime = 1.0, endTime = fl 1.4, entry_text = str ''Hi''\<rparr>,
          \<lparr>entry_id = b, startTime = 1.5, endTime = 2.0, entry_text = str ''H i''\<rparr>]"
    by (simp add: reconcile_def reconcileStep_def string_defs)
qed

text \<open>
  The rule on a sequence of three candidates: the third, \<open>("hi ", 1.5, 2.0)\<close>, meets the
  condition against the last accepted entry \<open>("Hi", 1.0, 1.4)\<close> and is merged into it;
  \<open>("Hi", 2.0, 2.4)\<close> does not meet it and is appended.
\<close>

theorem merge_rule_witness:
  "sorted (map startTime
      ([\<lparr>entry_id = ''s0'', startTime = 0, endTime = 0.5, entry_text = str ''Oh''\<rparr>,
        \<lparr>entry_id = ''s1'', startTime = 1.0, endTime = fl 1.4, entry_text = str ''Hi''\<rparr>]
       @ [\<lparr>entry_id = ''s2'', startTime = 1.5, endTime = 2.0, entry_text = str ''hi ''\<rparr>]))
   \<and> reconcile asciiCaseMap
        ([\<lparr>entry_id = ''s0'', startTime = 0, endTime = 0.5, entry_text = str ''Oh''\<rparr>,
          \<lparr>entry_id = ''s1'', startTime = 1.0, endTime = fl 1.4, entry_text = str ''Hi''\<rparr>]
         @ [\<lparr>entry_id = ''s2'', startTime = 1.5, endTime = 2.0, entry_text = str ''hi ''\<rparr>])
       = [\<lparr>entry_id = ''s0'', startTime = 0, endTime = 0.5, entry_text = str ''Oh''\<rparr>,
          \<lparr>entry_id = ''s1'', startTime = 1.0, endTime = 2.0, entry_text = str ''Hi''\<rparr>]
   \<and> sorted (map startTime
      ([\<lparr>entry_id = ''s0'', startTime = 0, endTime = 0.5, entry_text = str ''Oh''\<rparr>,
        \<lparr>entry_id = ''s1'', startTime = 1.0, endTime = fl 1.4, entry_text = str ''Hi''\<rparr>]
       @ [\<lparr>entry_id = ''s2'', startTime = 2.0, endTime = fl 2.4, entry_text = str ''Hi''\<rparr>]))
   \<and> reconcile asciiCaseMap
        ([\<lparr>entry_id = ''s0'', startTime = 0, endTime = 0.5, entry_text = str ''Oh''\<rparr>,
          \<lparr>entry_id = ''s1'', startTime = 1.0, endTime = fl 1.4, entry_text = str ''Hi''\<rparr>]
         @ [\<lparr>entry_id = ''s2'', startTime = 2.0, endTime = fl 2.4, entry_text = str ''Hi''\<rparr>])
       = [\<lparr>entry_id = ''s0'', startTime = 0, endTime = 0.5, entry_text = str ''Oh''\<rparr>,
          \<lparr>entry_id = ''s1'', startTime = 1.0, endTime = fl 1.4, entry_text = str ''Hi''\<rparr>,
          \<lparr>entry_id = ''s2'', startTime = 2.0, endTime = fl 2.4, entry_text = str ''Hi''\<rparr>]"
proof -
  let ?seen = "[\<lparr>entry_id = ''s0'', startTime = 0, endTime = 0.5, entry_text = str ''Oh''\<rparr>,
          \<lparr>entry_id = ''s1'', startTime = 1.0, endTime = fl 1.4, entry_text = str ''Hi''\<rparr>]"
  let ?m = "\<lparr>entry_id = ''s2'', startTime = 1.5, endTime = 2.0, entry_text = str ''hi ''\<rparr>"
  let ?n = "\<lparr>entry_id = ''s2'', startTime = 2.0, endTime = fl 2.4, entry_text = str ''Hi''\<rparr>"
  have seen: "reconcile asciiCaseMap ?seen = ?seen"
    by (simp add: reconcile_def reconcileStep_def string_defs)
  have s1: "sorted (map startTime (?seen @ [?m]))" by simp
  have s2: "sorted (map startTime (?seen @ [?n]))" by simp
  have t1: "toLowerCase asciiCaseMap (trim (entry_text ?m))
             = toLowerCase asciiCaseMap (trim (entry_text (last (reconcile asciiCaseMap ?seen))))"
    unfolding seen by (simp add: string_defs)
  have w1: "startTime ?m \<le> fl (endTime (last (reconcile asciiCaseMap ?seen)) + fl 0.3)"
    unfolding seen by simp (simp add: fl_eval)
  have w2: "\<not> startTime ?n \<le> fl (endTime (last (reconcile asciiCaseMap ?seen)) + fl 0.3)"
    unfolding seen by simp (simp add: fl_eval)
  have ne: "reconcile asciiCaseMap ?seen \<noteq> []" unfolding seen by simp
  from merge_rule [where seen = ?seen and sub = ?m and lc = asciiCaseMap] s1 ne t1 w1
  have r1: "reconcile asciiCaseMap (?seen @ [?m]) =
      [\<lparr>entry_id = ''s0'', startTime = 0, endTime = 0.5, entry_text = str ''Oh''\<rparr>,
       \<lparr>entry_id = ''s1'', startTime = 1.0, endTime = 2.0, entry_text = str ''Hi''\<rparr>]"
    unfolding seen by simp (simp add: fl_eval)
  from merge_rule [where seen = ?seen and sub = ?n and lc = asciiCaseMap] s2 w2
  have r2: "reconcile asciiCaseMap (?seen @ [?n]) = ?seen @ [?n]"
    unfolding seen by (simp add: string_defs)
  from s1 s2 r1 r2 show ?thesis by simp
qed


subsection \<open>C2: malformed response payloads\<close>

text \<open>
  Claim C2 says that a non-conforming response payload always fails the run and is never
  coerced to an empty candidate list. A response without text is read as \<open>'[]'\<close> by
  \<open>response.text || '[]'\<close>: \<open>processFrames\<close> returns the empty list, and the run completes
  with an empty subtitle list in place of the one it held.
\<close>

theorem absent_text_counterexample:
  "processFrames (exampleEnv (Some ''key'') (Responded NoText))
      [\<lparr>data = ''data:image/jpeg;base64,AAAA'', timestamp = 0\<rparr>] English = Inr []
   \<and> subtitles (startOCR (exampleEnv (Some ''key'') (Responded NoText)) exampleApp) = []
   \<and> processState (startOCR (exampleEnv (Some ''key'') (Responded NoText)) exampleApp)
       = \<lparr>isProcessing = False, progress = 100, currentStep = ''Process Complete.''\<rparr>"
  by (simp add: example_defs run_defs reconcile_def)

text \<open>
  Claim C2, amended. If the response to any dispatched batch is not valid JSON, or is
  JSON for a value that is not an array, the run fails: the subtitle list is unchanged and
  the process state is the failed one. With a key present, \<open>processFrames\<close> throws a
  \<open>SyntaxError\<close> for the first kind of payload and a \<open>TypeError\<close> for the second, and
  returns the empty list when the response has no text.
\<close>

theorem malformed_payload_fails:
  "(videoRef app = Some video \<and> metadata app \<noteq> None
      \<and> k * batchSize < length (fst (sampleFrames env app video))
      \<and> generateContent env
           (take batchSize (drop (k * batchSize) (fst (sampleFrames env app video))))
           (language app) \<in> {Responded NotJSON, Responded NotArray}
     \<longrightarrow> subtitles (startOCR env app) = subtitles app
         \<and> processState (startOCR env app) = failedState)
   \<and> (\<not> apiKeyMissing env \<and> generateContent env frames lang = Responded NotJSON
     \<longrightarrow> processFrames env frames lang = Inl SyntaxError)
   \<and> (\<not> apiKeyMissing env \<and> generateContent env frames lang = Responded NotArray
     \<longrightarrow> processFrames env frames lang = Inl TypeError)
   \<and> (\<not> apiKeyMissing env \<and> generateContent env frames lang = Responded NoText
     \<longrightarrow> processFrames env frames lang = Inr [])"
proof (intro conjI impI)
  assume a: "videoRef app = Some video \<and> metadata app \<noteq> None
      \<and> k * batchSize < length (fst (sampleFrames env app video))
      \<and> generateContent env
           (take batchSize (drop (k * batchSize) (fst (sampleFrames env app video))))
           (language app) \<in> {Responded NotJSON, Responded NotArray}"
  then have "isl (processFrames env
                (take batchSize (drop (k * batchSize) (fst (sampleFrames env app video))))
                (language app))"
    by (auto simp: processFrames_def)
  with a have "isl (dispatchLoop env (language app) (fst (sampleFrames env app video)) 0 [])"
    using dispatchLoop_fails [of 0 k] by simp
  with a have r: "startOCR env app =
           app\<lparr>videoRef := snd (sampleFrames env app video), processState := failedState\<rparr>"
    by (simp add: startOCR_failed)
  show "subtitles (startOCR env app) = subtitles app" by (simp add: r)
  show "processState (startOCR env app) = failedState" by (simp add: r)
qed (simp_all add: processFrames_def)

text \<open>
  The amended claim on the example state: a service that answers with text that is not
  JSON fails the run and leaves the old subtitle in place.
\<close>

theorem malformed_payload_fails_witness:
  "videoRef exampleApp = Some exampleVideo \<and> metadata exampleApp \<noteq> None
   \<and> 0 * batchSize < length (fst (sampleFrames (exampleEnv (Some ''key'') (Responded NotJSON)) exampleApp exampleVideo))
   \<and> generateContent (exampleEnv (Some ''key'') (Responded NotJSON))
        (take batchSize (drop (0 * batchSize)
           (fst (sampleFrames (exampleEnv (Some ''key'') (Responded NotJSON)) exampleApp exampleVideo))))
        (language exampleApp) = Responded NotJSON
   \<and> subtitles (startOCR (exampleEnv (Some ''key'') (Responded NotJSON)) exampleApp)
       = [\<lparr>entry_id = ''old'', startTime = 0, endTime = 1, entry_text = str ''Old''\<rparr>]
   \<and> processState (startOCR (exampleEnv (Some ''key'') (Responded NotJSON)) exampleApp)
       = \<lparr>isProcessing = False, progress = 0, currentStep = ''Failed.''\<rparr>
   \<and> \<not> apiKeyMissing (exampleEnv (Some ''key'') (Responded NotArray))
   \<and> processFrames (exampleEnv (Some ''key'') (Responded NotJSON)) [] English = Inl SyntaxError
   \<and> processFrames (exampleEnv (Some ''key'') (Responded NotArray)) [] English = Inl TypeError
   \<and> processFrames (exampleEnv (Some ''key'') (Responded NoText)) [] English = Inr []"
proof -
  let ?env = "exampleEnv (Some ''key'') (Responded NotJSON)"
  have fs: "fst (sampleFrames ?env exampleApp exampleVideo) =
     [\<lparr>data = ''data:image/jpeg;base64,AAAA'', timestamp = 0\<rparr>,
      \<lparr>data = ''data:image/jpeg;base64,AAAA'', timestamp = 0.5\<rparr>,
      \<lparr>data = ''data:image/jpeg;base64,AAAA'', timestamp = 1\<rparr>]"
    by (simp add: example_defs run_defs)
  have key: "\<And>r. \<not> apiKeyMissing (exampleEnv (Some ''key'') r)"
    by (simp add: apiKeyMissing_def exampleEnv_def)
  have gc: "\<And>r fr l. generateContent (exampleEnv (Some ''key'') r) fr l = r"
    by (simp add: exampleEnv_def)
  have h: "videoRef exampleApp = Some exampleVideo \<and> metadata exampleApp \<noteq> None
      \<and> 0 * batchSize < length (fst (sampleFrames ?env exampleApp exampleVideo))"
    by (simp add: fs) (simp add: exampleApp_def)
  from h key gc
    malformed_payload_fails [of exampleApp exampleVideo 0 ?env "[]" English]
    malformed_payload_fails [of exampleApp exampleVideo 0
       "exampleEnv (Some ''key'') (Responded NotArray)" "[]" English]
    malformed_payload_fails [of exampleApp exampleVideo 0
       "exampleEnv (Some ''key'') (Responded NoText)" "[]" English]
  show ?thesis
    by (simp add: exampleApp_def failedState_def)
qed


subsection \<open>C3: abort on failure\<close>

text \<open>
  Claim C3. If \<open>processFrames\<close> throws for any batch of the run (batch \<open>k\<close> of the
  sampled frames), the subtitle list after the run is the one before it, and the process
  state is the failed one, not the completed one. The candidates accumulated from earlier
  batches are not part of the resulting state.
\<close>

theorem abort_on_failure:
  assumes "videoRef app = Some video" and "metadata app \<noteq> None"
    and "k * batchSize < length (fst (sampleFrames env app video))"
    and "isl (processFrames env
                (take batchSize (drop (k * batchSize) (fst (sampleFrames env app video))))
                (language app))"
  shows "subtitles (startOCR env app) = subtitles app
         \<and> processState (startOCR env app) = failedState
         \<and> processState (startOCR env app) \<noteq> completeState"
proof -
  from assms(3,4)
  have "isl (dispatchLoop env (language app) (fst (sampleFrames env app video)) 0 [])"
    using dispatchLoop_fails [of 0 k] by simp
  from startOCR_failed [OF assms(1,2) this] show ?thesis
    by (simp add: failedState_def completeState_def)
qed

text \<open>
  The example state with a service that rejects every call: the old subtitle list is
  kept and the state reads \<open>Failed.\<close>
\<close>

theorem abort_on_failure_witness:
  "videoRef exampleApp = Some exampleVideo \<and> metadata exampleApp \<noteq> None
   \<and> 0 * batchSize < length (fst (sampleFrames (exampleEnv (Some ''key'') Rejected) exampleApp exampleVideo))
   \<and> isl (processFrames (exampleEnv (Some ''key'') Rejected)
            (take batchSize (drop (0 * batchSize)
               (fst (sampleFrames (exampleEnv (Some ''key'') Rejected) exampleApp exampleVideo))))
            (language exampleApp))
   \<and> subtitles (startOCR (exampleEnv (Some ''key'') Rejected) exampleApp)
       = [\<lparr>entry_id = ''old'', startTime = 0, endTime = 1, entry_text = str ''Old''\<rparr>]
   \<and> processState (startOCR (exampleEnv (Some ''key'') Rejected) exampleApp)
       = \<lparr>isProcessing = False, progress = 0, currentStep = ''Failed.''\<rparr>"
proof -
  let ?env = "exampleEnv (Some ''key'') Rejected"
  have fs: "fst (sampleFrames ?env exampleApp exampleVideo) =
     [\<lparr>data = ''data:image/jpeg;base64,AAAA'', timestamp = 0\<rparr>,
      \<lparr>data = ''data:image/jpeg;base64,AAAA'', timestamp = 0.5\<rparr>,
      \<lparr>data = ''data:image/jpeg;base64,AAAA'', timestamp = 1\<rparr>]"
    by (simp add: example_defs run_defs)
  have h1: "videoRef exampleApp = Some exampleVideo" by (simp add: exampleApp_def)
  have h2: "metadata exampleApp \<noteq> None" by (simp add: exampleApp_def)
  have h3: "0 * batchSize < length (fst (sampleFrames ?env exampleApp exampleVideo))"
    by (simp add: fs)
  have h4: "isl (processFrames ?env
            (take batchSize (drop (0 * batchSize) (fst (sampleFrames ?env exampleApp exampleVideo))))
            (language exampleApp))"
    by (simp add: processFrames_def apiKeyMissing_def exampleEnv_def)
  from abort_on_failure [OF h1 h2 h3 h4] h1 h2 h3 h4 show ?thesis
    by (simp add: exampleApp_def failedState_def)
qed


subsection \<open>C4: idempotence\<close>

text \<open>
  Claim C4. Reconciling the output of a reconciliation (sort by \<open>startTime\<close>, then the
  single merge pass) gives that output again: nothing is merged and nothing is reordered.
\<close>

theorem reconcile_idempotent: "reconcile lc (reconcile lc allSubs) = reconcile lc allSubs"
  by (rule reconcile_fixed) (rule settled_reconcile, rule reconcile_sorted)


subsection \<open>C5: sampling timestamps\<close>

text \<open>
  Claim C5 says that the timestamps are \<open>start\<close>, \<open>start + step\<close>, \<open>start + 2 * step\<close>, ...
  up to and including the bound. The loop accumulates rounded sums instead. For the
  window from 0.03 to 2.03 the bound is \<open>0.03 + 4 * 0.5\<close>, but the fourth accumulated
  sum is 2.0300000000000002, above the double 2.03: four frames are taken, the second
  already not at \<open>start + step\<close>, and the bound is not sampled. For the window from 0.1
  to 0.6 the exact sum of the double 0.1 and 0.5 is above the double 0.6, yet it rounds
  to 0.6 and a second frame is taken there.
\<close>

theorem sampler_boundary_counterexample:
  "(0.03 :: real) + 4 * step \<le> 2.03
   \<and> map_option (map timestamp \<circ> fst)
        (sampleLoopDouble (area exampleApp) True (fl 0.03) (fl 2.03) (Some exampleVideo) [])
       = Some [fl 0.03, tick (fl 0.03), tick (tick (fl 0.03)), tick (tick (tick (fl 0.03)))]
   \<and> tick (fl 0.03) \<noteq> fl 0.03 + step
   \<and> tick (tick (tick (fl 0.03))) < fl 2.03
   \<and> fl 2.03 < tick (tick (tick (tick (fl 0.03))))
   \<and> fl 0.6 < fl 0.1 + step
   \<and> map_option (map timestamp \<circ> fst)
        (sampleLoopDouble (area exampleApp) True (fl 0.1) (fl 0.6) (Some exampleVideo) [])
       = Some [fl 0.1, fl 0.6]"
proof -
  have a: "fl 0.03 = 1080863910568919 / 36028797018963968"
    and b: "fl 2.03 = 4571153621781053 / 2251799813685248"
    and c: "fl 0.1 = 3602879701896397 / 36028797018963968"
    and d: "fl 0.6 = 5404319552844595 / 9007199254740992"
    by (simp_all add: fl_eval)
  have t1: "tick (1080863910568919 / 36028797018963968) = 2386907802506363 / 4503599627370496"
    and t2: "tick (2386907802506363 / 4503599627370496) = 4638707616191611 / 4503599627370496"
    and t3: "tick (4638707616191611 / 4503599627370496) = 6890507429876859 / 4503599627370496"
    and t4: "tick (6890507429876859 / 4503599627370496) = 2285576810890527 / 1125899906842624"
    and u1: "tick (3602879701896397 / 36028797018963968) = 5404319552844595 / 9007199254740992"
    and u2: "tick (5404319552844595 / 9007199254740992) = 2476979795053773 / 2251799813685248"
    by (simp_all add: tick_def step_def fl_eval)
  show ?thesis
    unfolding a b c d
    by (simp add: sampleLoopDouble.simps t1 t2 t3 t4 u1 u2) (simp add: step_def)
qed

text \<open>
  Claim C5, amended. The timestamps are \<open>t0 = start\<close> and \<open>t(i+1) = t(i) + step\<close>, each sum
  rounded to a double (\<open>tick\<close>). The loop returns exactly when some \<open>t(n)\<close> exceeds the
  bound; it has then captured one frame for each of \<open>t(0), ..., t(N-1)\<close>, all at most
  the bound (the test is inclusive), where \<open>t(N)\<close> is the first to exceed it. For the
  window \<open>[0, 5]\<close> every sum is exact and the loop produces the 11 timestamps
  \<open>0, 0.5, ..., 5.0\<close>, each at most \<open>5.0\<close>.
\<close>

theorem sampler_timestamps:
  "((\<exists>n. rangeEnd < (tick ^^ n) start)
     \<longrightarrow> (\<exists>N frames vref'.
           sampleLoopDouble ar ctx start rangeEnd vref [] = Some (frames, vref')
           \<and> map timestamp frames = map (\<lambda>i. (tick ^^ i) start) [0..<N]
           \<and> (\<forall>i<N. (tick ^^ i) start \<le> rangeEnd)
           \<and> rangeEnd < (tick ^^ N) start))
   \<and> ((\<forall>n. (tick ^^ n) start \<le> rangeEnd)
     \<longrightarrow> sampleLoopDouble ar ctx start rangeEnd vref [] = None)
   \<and> map_option (map timestamp \<circ> fst) (sampleLoopDouble ar ctx 0 5 vref [])
       = Some [0, 0.5, 1.0, 1.5, 2.0, 2.5, 3.0, 3.5, 4.0, 4.5, 5.0]
   \<and> map_option (length \<circ> fst) (sampleLoopDouble ar ctx 0 5 vref []) = Some 11
   \<and> map_option (list_all (\<lambda>f. timestamp f \<le> 5.0) \<circ> fst)
        (sampleLoopDouble ar ctx 0 5 vref []) = Some True
   \<and> sampleLoopDouble ar ctx 0 5 vref [] = Some (sampleLoop ar ctx 0 5 vref [])"
proof (intro conjI impI)
  assume "\<exists>n. rangeEnd < (tick ^^ n) start"
  then obtain n where "rangeEnd < (tick ^^ n) start" ..
  from sampleLoopDouble_returns [OF this, of ar ctx vref "[]"]
  show "\<exists>N frames vref'.
           sampleLoopDouble ar ctx start rangeEnd vref [] = Some (frames, vref')
           \<and> map timestamp frames = map (\<lambda>i. (tick ^^ i) start) [0..<N]
           \<and> (\<forall>i<N. (tick ^^ i) start \<le> rangeEnd)
           \<and> rangeEnd < (tick ^^ N) start"
    by auto
next
  assume "\<forall>n. (tick ^^ n) start \<le> rangeEnd"
  then show "sampleLoopDouble ar ctx start rangeEnd vref [] = None"
    by (rule sampleLoopDouble_None)
next
  have ticks: "tick 0 = 1 / 2" "tick (1 / 2) = 1" "tick 1 = 3 / 2" "tick (3 / 2) = 2"
    "tick 2 = 5 / 2" "tick (5 / 2) = 3" "tick 3 = 7 / 2" "tick (7 / 2) = 4"
    "tick 4 = 9 / 2" "tick (9 / 2) = 5" "tick 5 = 11 / 2"
    by (simp_all add: tick_def step_def fl_eval)
  have ex: "sampleLoopDouble ar ctx 0 5 vref [] = Some (sampleLoop ar ctx 0 5 vref [])"
    by (simp add: sampleLoopDouble.simps sampleLoop.simps ticks step_def)
  have ts: "map timestamp (fst (sampleLoop ar ctx 0 5 vref []))
       = [0, 0.5, 1.0, 1.5, 2.0, 2.5, 3.0, 3.5, 4.0, 4.5, 5.0]"
    by (simp add: sampleLoop.simps step_def)
  from ex show "sampleLoopDouble ar ctx 0 5 vref [] = Some (sampleLoop ar ctx 0 5 vref [])" .
  from ex ts show "map_option (map timestamp \<circ> fst) (sampleLoopDouble ar ctx 0 5 vref [])
       = Some [0, 0.5, 1.0, 1.5, 2.0, 2.5, 3.0, 3.5, 4.0, 4.5, 5.0]"
    by simp
  from ts have "length (map timestamp (fst (sampleLoop ar ctx 0 5 vref []))) = 11"
    by simp
  with ex show "map_option (length \<circ> fst) (sampleLoopDouble ar ctx 0 5 vref []) = Some 11"
    by simp
  have "list_all (\<lambda>t. t \<le> 5.0) (map timestamp (fst (sampleLoop ar ctx 0 5 vref [])))"
    unfolding ts by simp
  then have "list_all (\<lambda>f. timestamp f \<le> 5.0) (fst (sampleLoop ar ctx 0 5 vref []))"
    by (simp add: list_all_iff)
  with ex show "map_option (list_all (\<lambda>f. timestamp f \<le> 5.0) \<circ> fst)
        (sampleLoopDouble ar ctx 0 5 vref []) = Some True"
    by simp
qed

text \<open>
  The window from 0.1 to 0.6: the third timestamp exceeds the bound, so the loop returns
  with the frames of those before it. The window from \<open>2^52\<close> to \<open>2^52\<close>: adding one half
  to \<open>2^52\<close> rounds back to \<open>2^52\<close>, no timestamp exceeds the bound, and the loop never
  returns.
\<close>

theorem sampler_timestamps_witness:
  "fl 0.6 < (tick ^^ 2) (fl 0.1)
   \<and> (\<exists>N frames vref'.
         sampleLoopDouble (area exampleApp) True (fl 0.1) (fl 0.6) (Some exampleVideo) []
           = Some (frames, vref')
         \<and> map timestamp frames = map (\<lambda>i. (tick ^^ i) (fl 0.1)) [0..<N]
         \<and> fl 0.6 < (tick ^^ N) (fl 0.1))
   \<and> (\<forall>n. (tick ^^ n) (2 ^ 52) \<le> 2 ^ 52)
   \<and> sampleLoopDouble (area exampleApp) True (2 ^ 52) (2 ^ 52) (Some exampleVideo) [] = None"
proof -
  have c: "fl 0.1 = 3602879701896397 / 36028797018963968"
    and d: "fl 0.6 = 5404319552844595 / 9007199254740992"
    by (simp_all add: fl_eval)
  have u1: "tick (3602879701896397 / 36028797018963968) = 5404319552844595 / 9007199254740992"
    and u2: "tick (5404319552844595 / 9007199254740992) = 2476979795053773 / 2251799813685248"
    by (simp_all add: tick_def step_def fl_eval)
  have h1: "fl 0.6 < (tick ^^ 2) (fl 0.1)"
    unfolding c d by (simp add: numeral_2_eq_2 u1 u2)
  then have e1: "\<exists>n. fl 0.6 < (tick ^^ n) (fl 0.1)" ..
  have stuck: "tick 4503599627370496 = 4503599627370496"
    by (simp add: tick_def step_def fl_eval)
  have iter: "(tick ^^ n) 4503599627370496 = 4503599627370496" for n
    by (induction n) (simp_all add: stuck)
  have p: "(2 :: real) ^ 52 = 4503599627370496" by simp
  have h2: "\<forall>n. (tick ^^ n) (2 ^ 52) \<le> 2 ^ 52"
    unfolding p by (simp add: iter)
  from sampler_timestamps [where rangeEnd = "fl 0.6" and start = "fl 0.1" and ar = "area exampleApp"
      and ctx = True and vref = "Some exampleVideo"] e1
  have r1: "\<exists>N frames vref'.
         sampleLoopDouble (area exampleApp) True (fl 0.1) (fl 0.6) (Some exampleVideo) []
           = Some (frames, vref')
         \<and> map timestamp frames = map (\<lambda>i. (tick ^^ i) (fl 0.1)) [0..<N]
         \<and> fl 0.6 < (tick ^^ N) (fl 0.1)"
    by blast
  from sampler_timestamps [where rangeEnd = "2 ^ 52" and start = "2 ^ 52" and ar = "area exampleApp"
      and ctx = True and vref = "Some exampleVideo"] h2
  have r2: "sampleLoopDouble (area exampleApp) True (2 ^ 52) (2 ^ 52) (Some exampleVideo) [] = None"
    by blast
  from h1 r1 h2 r2 show ?thesis by blast
qed


subsection \<open>C6: candidates with empty text\<close>

text \<open>
  Claim C6. A candidate whose trimmed text is empty has no effect on reconciliation: the
  output is the one obtained with all such candidates removed from the input, no output
  entry has empty trimmed text, and at any point of the merge pass such a candidate
  leaves the accepted entries as they are (neither merged nor appended). The text of
  \<open>("   ", 3.0, 3.2)\<close> trims to the empty string.
\<close>

theorem empty_text_dropped:
  "reconcile lc allSubs = reconcile lc (filter (\<lambda>c. trim (entry_text c) \<noteq> []) allSubs)
   \<and> list_all (\<lambda>e. trim (entry_text e) \<noteq> []) (reconcile lc allSubs)
   \<and> (trim (entry_text sub) = []
        \<longrightarrow> reconcileStep lc (foldl (reconcileStep lc) [] seen) sub
            = foldl (reconcileStep lc) [] seen)
   \<and> trim (str ''   '') = []"
proof (intro conjI impI)
  show "reconcile lc allSubs = reconcile lc (filter (\<lambda>c. trim (entry_text c) \<noteq> []) allSubs)"
    by (simp add: reconcile_filter)
  show "list_all (\<lambda>e. trim (entry_text e) \<noteq> []) (reconcile lc allSubs)"
    using settled_reconcile [of lc allSubs] by (simp add: settled_def)
  show "reconcileStep lc (foldl (reconcileStep lc) [] seen) sub = foldl (reconcileStep lc) [] seen"
    if "trim (entry_text sub) = []"
    using that settled_foldl [OF settled_Nil] by (rule reconcileStep_empty [rotated])
  show "trim (str ''   '') = []" by (simp add: string_defs)
qed

text \<open>
  The candidate \<open>("   ", 3.0, 3.2)\<close> after \<open>("Hi", 2.9, 3.1)\<close>: within the tolerance of
  the accepted entry, yet it changes nothing.
\<close>

theorem empty_text_dropped_witness:
  "trim (entry_text
      \<lparr>entry_id = ''s2'', startTime = 3.0, endTime = 3.2, entry_text = str ''   ''\<rparr>) = []
   \<and> reconcileStep asciiCaseMap
       (foldl (reconcileStep asciiCaseMap) []
          [\<lparr>entry_id = ''s1'', startTime = 2.9, endTime = 3.1, entry_text = str ''Hi''\<rparr>])
       \<lparr>entry_id = ''s2'', startTime = 3.0, endTime = 3.2, entry_text = str ''   ''\<rparr>
     = [\<lparr>entry_id = ''s1'', startTime = 2.9, endTime = 3.1, entry_text = str ''Hi''\<rparr>]
   \<and> reconcile asciiCaseMap
        [\<lparr>entry_id = ''s1'', startTime = 2.9, endTime = 3.1, entry_text = str ''Hi''\<rparr>,
         \<lparr>entry_id = ''s2'', startTime = 3.0, endTime = 3.2, entry_text = str ''   ''\<rparr>]
     = reconcile asciiCaseMap
        [\<lparr>entry_id = ''s1'', startTime = 2.9, endTime = 3.1, entry_text = str ''Hi''\<rparr>]"
  using empty_text_dropped
    [where lc = asciiCaseMap
       and allSubs =
         "[\<lparr>entry_id = ''s1'', startTime = 2.9, endTime = 3.1, entry_text = str ''Hi''\<rparr>,
           \<lparr>entry_id = ''s2'', startTime = 3.0, endTime = 3.2, entry_text = str ''   ''\<rparr>]"
       and sub = "\<lparr>entry_id = ''s2'', startTime = 3.0, endTime = 3.2, entry_text = str ''   ''\<rparr>"
       and seen =
         "[\<lparr>entry_id = ''s1'', startTime = 2.9, endTime = 3.1, entry_text = str ''Hi''\<rparr>]"]
  by (simp add: string_defs reconcileStep_def)


subsection \<open>C7: output order\<close>

text \<open>
  Claim C7. For every list of candidates, in whatever order, adjacent entries of the
  reconciled output satisfy \<open>entries[i].startTime \<le> entries[i+1].startTime\<close>.
\<close>

theorem reconcile_start_order:
  "\<forall>i. i + 1 < length (reconcile lc allSubs)
        \<longrightarrow> startTime (reconcile lc allSubs ! i) \<le> startTime (reconcile lc allSubs ! (i + 1))"
proof (intro allI impI)
  fix i
  assume lt: "i + 1 < length (reconcile lc allSubs)"
  from reconcile_sorted [of lc allSubs] lt
  have "map startTime (reconcile lc allSubs) ! i \<le> map startTime (reconcile lc allSubs) ! (i + 1)"
    by (intro sorted_nth_mono) simp_all
  with lt show "startTime (reconcile lc allSubs ! i) \<le> startTime (reconcile lc allSubs ! (i + 1))"
    by simp
qed

text \<open>
  Two candidates given in descending order of start time come out in ascending order.
\<close>

theorem reconcile_start_order_witness:
  "0 + 1 < length (reconcile asciiCaseMap
       [\<lparr>entry_id = ''s1'', startTime = 7.5, endTime = 8.0, entry_text = str ''Bye''\<rparr>,
        \<lparr>entry_id = ''s2'', startTime = 1.0, endTime = 1.4, entry_text = str ''Hi''\<rparr>])
   \<and> startTime (reconcile asciiCaseMap
       [\<lparr>entry_id = ''s1'', startTime = 7.5, endTime = 8.0, entry_text = str ''Bye''\<rparr>,
        \<lparr>entry_id = ''s2'', startTime = 1.0, endTime = 1.4, entry_text = str ''Hi''\<rparr>] ! 0)
     \<le> startTime (reconcile asciiCaseMap
       [\<lparr>entry_id = ''s1'', startTime = 7.5, endTime = 8.0, entry_text = str ''Bye''\<rparr>,
        \<lparr>entry_id = ''s2'', startTime = 1.0, endTime = 1.4, entry_text = str ''Hi''\<rparr>] ! (0 + 1))"
proof -
  let ?xs = "[\<lparr>entry_id = ''s1'', startTime = 7.5, endTime = 8.0, entry_text = str ''Bye''\<rparr>,
        \<lparr>entry_id = ''s2'', startTime = 1.0, endTime = 1.4, entry_text = str ''Hi''\<rparr>]"
  have r: "reconcile asciiCaseMap ?xs =
      [\<lparr>entry_id = ''s2'', startTime = 1.0, endTime = 1.4, entry_text = str ''Hi''\<rparr>,
       \<lparr>entry_id = ''s1'', startTime = 7.5, endTime = 8.0, entry_text = str ''Bye''\<rparr>]"
    by (simp add: reconcile_def reconcileStep_def string_defs)
  then have h: "0 + 1 < length (reconcile asciiCaseMap ?xs)" by simp
  from reconcile_start_order [of asciiCaseMap ?xs] h
  have "startTime (reconcile asciiCaseMap ?xs ! 0) \<le> startTime (reconcile asciiCaseMap ?xs ! (0 + 1))"
    by blast
  with h show ?thesis by blast
qed


subsection \<open>C8: missing API key\<close>





subsection \<open>C9: the playback position after a run\<close>

text \<open>
  Claim C9 says that the playback position recorded before sampling is restored when the
  run ends. The \<open>try\<close> block restores it (\<open>startOCR_restores_on_success\<close>); the
  \<open>catch\<close> block does not. On the example state, positioned at 0.25 s, a run whose
  service call is rejected ends with the video at 1 s, where the last frame was captured.
\<close>

theorem position_not_restored_on_failure:
  "currentTime exampleVideo = 0.25
   \<and> processState (startOCR (exampleEnv (Some ''key'') Rejected) exampleApp) = failedState
   \<and> videoRef (startOCR (exampleEnv (Some ''key'') Rejected) exampleApp)
       = Some (exampleVideo\<lparr>currentTime := 1, paused := True\<rparr>)"
  by (simp add: example_defs run_defs)


subsection \<open>C10: the seek target is clamped, the label is not\<close>


end
